theory Spec2Isabelle
  imports Main "HOL-Library.Sublist"
begin

section \<open>Python strings\<close>

text \<open>
  Text is a list of 8-bit characters, read as code points below 256. The functions of this
  section are the Python string methods that \<^verbatim>\<open>routes/note.py\<close> calls.
\<close>

definition isspace :: "char \<Rightarrow> bool" where
  \<comment> \<open>the code points below 256 that \<^verbatim>\<open>str.strip()\<close> removes\<close>
  "isspace c = (let n = (of_char c :: nat) in
     (9 \<le> n \<and> n \<le> 13) \<or> (28 \<le> n \<and> n \<le> 32) \<or> n = 133 \<or> n = 160)"

definition strip :: "string \<Rightarrow> string" where
  "strip s = rev (dropWhile isspace (rev (dropWhile isspace s)))"

definition lower_char :: "char \<Rightarrow> char" where
  "lower_char c = (let n = (of_char c :: nat) in
     if (65 \<le> n \<and> n \<le> 90) \<or> (192 \<le> n \<and> n \<le> 222 \<and> n \<noteq> 215)
     then char_of (n + 32) else c)"

definition lower :: "string \<Rightarrow> string" where
  \<comment> \<open>\<^verbatim>\<open>str.lower()\<close>\<close>
  "lower s = map lower_char s"

fun split :: "char \<Rightarrow> string \<Rightarrow> string list" where
  \<comment> \<open>\<^verbatim>\<open>s.split(d)\<close> for a one-character separator: always at least one piece\<close>
  "split d [] = [[]]"
| "split d (c # cs) =
     (if c = d then [] # split d cs
      else (case split d cs of [] \<Rightarrow> [[c]] | w # ws \<Rightarrow> (c # w) # ws))"

fun join :: "string \<Rightarrow> string list \<Rightarrow> string" where
  \<comment> \<open>\<^verbatim>\<open>sep.join(xs)\<close>\<close>
  "join sep [] = []"
| "join sep [x] = x"
| "join sep (x # y # ys) = x @ sep @ join sep (y # ys)"

fun digits :: "nat \<Rightarrow> string" where
  "digits n = (if n < 10 then [char_of (48 + n)]
               else digits (n div 10) @ [char_of (48 + n mod 10)])"

declare digits.simps [simp del]

definition hex_digit :: "nat \<Rightarrow> char" where
  "hex_digit d = (if d < 10 then char_of (48 + d) else char_of (87 + d))"

section \<open>JSON values as Python objects\<close>

text \<open>
  The value that \<^verbatim>\<open>request.json\<close> hands to a route. \<open>JObj\<close> holds the items of the
  dict in order. Floating-point numbers are not part of the model.
\<close>

datatype json =
    JNull
  | JBool bool
  | JInt int
  | JStr string
  | JList "json list"
  | JObj "(string \<times> json) list"

fun truthy :: "json \<Rightarrow> bool" where
  \<comment> \<open>Python truth value, as tested by \<^verbatim>\<open>if not data\<close>\<close>
  "truthy JNull = False"
| "truthy (JBool b) = b"
| "truthy (JInt i) = (i \<noteq> 0)"
| "truthy (JStr s) = (s \<noteq> [])"
| "truthy (JList xs) = (xs \<noteq> [])"
| "truthy (JObj kvs) = (kvs \<noteq> [])"

definition escape_char :: "char \<Rightarrow> char \<Rightarrow> string" where
  "escape_char q c = (let n = (of_char c :: nat) in
     if c = q \<or> c = CHR 0x5C then [CHR 0x5C, c]
     else if c = CHR 0x09 then [CHR 0x5C, CHR ''t'']
     else if c = CHR 0x0A then [CHR 0x5C, CHR ''n'']
     else if c = CHR 0x0D then [CHR 0x5C, CHR ''r'']
     else if n < 32 \<or> n = 127 \<or> (128 \<le> n \<and> n \<le> 160) \<or> n = 173
       then [CHR 0x5C, CHR ''x'', hex_digit (n div 16), hex_digit (n mod 16)]
     else [c])"

definition repr_str :: "string \<Rightarrow> string" where
  \<comment> \<open>\<^verbatim>\<open>repr\<close> of a str: single quotes unless the text has a single quote and no double quote\<close>
  "repr_str s = (let q = (if CHR 0x27 \<in> set s \<and> CHR 0x22 \<notin> set s then CHR 0x22 else CHR 0x27)
     in [q] @ concat (map (escape_char q) s) @ [q])"

fun py_repr :: "json \<Rightarrow> string" where
  "py_repr JNull = ''None''"
| "py_repr (JBool b) = (if b then ''True'' else ''False'')"
| "py_repr (JInt i) = (if i < 0 then CHR ''-'' # digits (nat (- i)) else digits (nat i))"
| "py_repr (JStr s) = repr_str s"
| "py_repr (JList xs) = ''['' @ join '', '' (map py_repr xs) @ '']''"
| "py_repr (JObj kvs) =
     ''{'' @ join '', '' (map (\<lambda>(k, v). repr_str k @ '': '' @ py_repr v) kvs) @ ''}''"

definition py_str :: "json \<Rightarrow> string" where
  \<comment> \<open>\<^verbatim>\<open>str(v)\<close>: the text itself for a str, \<^verbatim>\<open>repr\<close> otherwise\<close>
  "py_str v = (case v of JStr s \<Rightarrow> s | _ \<Rightarrow> py_repr v)"

datatype exn = TypeError | AttributeError | KeyError | NotFound | DatabaseError

definition py_in :: "string \<Rightarrow> json \<Rightarrow> exn + bool" where
  \<comment> \<open>\<^verbatim>\<open>k in data\<close>: key of a dict, element of a list, substring of a str\<close>
  "py_in k data = (case data of
       JObj kvs \<Rightarrow> Inr (k \<in> fst ` set kvs)
     | JList xs \<Rightarrow> Inr (JStr k \<in> set xs)
     | JStr s \<Rightarrow> Inr (sublist k s)
     | _ \<Rightarrow> Inl TypeError)"

definition py_item :: "json \<Rightarrow> string \<Rightarrow> exn + json" where
  \<comment> \<open>\<^verbatim>\<open>data[k]\<close>\<close>
  "py_item data k = (case data of
       JObj kvs \<Rightarrow> (case map_of kvs k of None \<Rightarrow> Inl KeyError | Some v \<Rightarrow> Inr v)
     | _ \<Rightarrow> Inl TypeError)"

definition py_get :: "json \<Rightarrow> string \<Rightarrow> exn + json option" where
  \<comment> \<open>\<^verbatim>\<open>data.get(k)\<close>: only a dict has the method\<close>
  "py_get data k = (case data of JObj kvs \<Rightarrow> Inr (map_of kvs k) | _ \<Rightarrow> Inl AttributeError)"

section \<open>SQL pattern matching\<close>

text \<open>
  \<^verbatim>\<open>column.ilike(pattern)\<close> with no escape character: in the pattern \<open>%\<close> stands for any
  run of characters and \<open>_\<close> for any one character; letters A to Z match in either case.
\<close>

fun like :: "string \<Rightarrow> string \<Rightarrow> bool" where
  "like [] s = (s = [])"
| "like (p # ps) [] = (p = CHR ''%'' \<and> like ps [])"
| "like (p # ps) (c # cs) =
     (if p = CHR ''%'' then like ps (c # cs) \<or> like (p # ps) cs
      else (p = CHR ''_'' \<or> p = c) \<and> like ps cs)"

definition sql_fold :: "char \<Rightarrow> char" where
  "sql_fold c = (let n = (of_char c :: nat) in
     if 65 \<le> n \<and> n \<le> 90 then char_of (n + 32) else c)"

definition ilike :: "string \<Rightarrow> string \<Rightarrow> bool" where
  \<comment> \<open>\<open>ilike pattern value\<close>\<close>
  "ilike pat s = like (map sql_fold pat) (map sql_fold s)"

definition contains_pattern :: "string \<Rightarrow> string" where
  \<comment> \<open>the f-string \<^verbatim>\<open>f"%{t}%"\<close>\<close>
  "contains_pattern t = ''%'' @ t @ ''%''"

section \<open>The notes table\<close>

record Note =
  note_id :: nat
  title :: string
  content :: string
  tags :: string
  created_at :: int
  updated_at :: int

text \<open>
  The table is the list of its rows. Both timestamp columns have the default
  \<^verbatim>\<open>datetime.utcnow\<close>, which the insert calls once for each column; \<open>updated_at\<close>
  has \<^verbatim>\<open>onupdate=datetime.utcnow\<close> as well, called when an UPDATE statement is written
  for the row. Clock readings are arguments of the operations.
\<close>

datatype body =
    NoteList "Note list"
  | NoteObj Note
  | ErrorMsg string
  | ErrorExn exn
  | Empty

datatype response = Response (status: nat) (body: body)

type_synonym backend = "json \<Rightarrow> string option"
  \<comment> \<open>what the database driver stores in a text column for a Python value that is neither
     \<^verbatim>\<open>None\<close> nor a str; \<open>None\<close> when it raises\<close>

definition bind_text :: "backend \<Rightarrow> json \<Rightarrow> exn + string" where
  \<comment> \<open>a value for a \<^verbatim>\<open>nullable=False\<close> text column\<close>
  "bind_text drv v = (case v of
       JNull \<Rightarrow> Inl DatabaseError
     | JStr s \<Rightarrow> Inr s
     | _ \<Rightarrow> (case drv v of None \<Rightarrow> Inl DatabaseError | Some s \<Rightarrow> Inr s))"

definition order_by_updated_desc :: "Note list \<Rightarrow> Note list" where
  \<comment> \<open>\<^verbatim>\<open>order_by(Note.updated_at.desc())\<close>\<close>
  "order_by_updated_desc rows = sort_key (\<lambda>n. - updated_at n) rows"

definition new_id :: "Note list \<Rightarrow> nat" where
  "new_id rows = Suc (fold max (map note_id rows) 0)"

definition get_row :: "Note list \<Rightarrow> nat \<Rightarrow> Note option" where
  "get_row rows i = find (\<lambda>n. note_id n = i) rows"

definition normalize_tags :: "json \<Rightarrow> string" where
  \<comment> \<open>the \<^verbatim>\<open>isinstance(tags, list)\<close> branch that create and update both have\<close>
  "normalize_tags v = (case v of
       JList ts \<Rightarrow> join '','' (map (\<lambda>t. strip (py_str t)) (filter (\<lambda>t. t \<noteq> JNull) ts))
     | _ \<Rightarrow> strip (py_str v))"

section \<open>The note routes\<close>

definition get_notes :: "Note list \<Rightarrow> response" where
  "get_notes rows = Response 200 (NoteList (order_by_updated_desc rows))"

definition missing_fields :: "json \<Rightarrow> exn + bool" where
  \<comment> \<open>\<^verbatim>\<open>not data or 'title' not in data or 'content' not in data\<close>\<close>
  "missing_fields data =
     (if \<not> truthy data then Inr True
      else (case py_in ''title'' data of
          Inl e \<Rightarrow> Inl e
        | Inr False \<Rightarrow> Inr True
        | Inr True \<Rightarrow> (case py_in ''content'' data of Inl e \<Rightarrow> Inl e | Inr b \<Rightarrow> Inr (\<not> b))))"

definition insert_note ::
  "backend \<Rightarrow> json \<Rightarrow> json \<Rightarrow> string \<Rightarrow> int \<Rightarrow> int \<Rightarrow> Note list \<Rightarrow> exn + Note" where
  \<comment> \<open>\<^verbatim>\<open>db.session.add(note); db.session.commit()\<close>: the row as the table holds it\<close>
  "insert_note drv tv cv tg t_created t_updated rows =
     (case bind_text drv tv of
        Inl e \<Rightarrow> Inl e
      | Inr t \<Rightarrow> (case bind_text drv cv of
          Inl e \<Rightarrow> Inl e
        | Inr c \<Rightarrow> Inr \<lparr>note_id = new_id rows, title = t, content = c, tags = tg,
                        created_at = t_created, updated_at = t_updated\<rparr>))"

definition create_note ::
  "backend \<Rightarrow> json \<Rightarrow> int \<Rightarrow> int \<Rightarrow> Note list \<Rightarrow> response \<times> Note list" where
  "create_note drv data t_created t_updated rows =
     (case missing_fields data of
        Inl e \<Rightarrow> (Response 500 (ErrorExn e), rows)
      | Inr True \<Rightarrow> (Response 400 (ErrorMsg ''Title and content are required''), rows)
      | Inr False \<Rightarrow>
          (case py_get data ''tags'' of
             Inl e \<Rightarrow> (Response 500 (ErrorExn e), rows)
           | Inr tg \<Rightarrow>
               (let tg' = normalize_tags (case tg of None \<Rightarrow> JStr [] | Some v \<Rightarrow> v) in
                case py_item data ''title'' of
                  Inl e \<Rightarrow> (Response 500 (ErrorExn e), rows)
                | Inr tv \<Rightarrow>
                    (case py_item data ''content'' of
                       Inl e \<Rightarrow> (Response 500 (ErrorExn e), rows)
                     | Inr cv \<Rightarrow>
                         (case insert_note drv tv cv tg' t_created t_updated rows of
                            Inl e \<Rightarrow> (Response 500 (ErrorExn e), rows)
                          | Inr n \<Rightarrow> (Response 201 (NoteObj n), rows @ [n]))))))"

definition get_note :: "nat \<Rightarrow> Note list \<Rightarrow> response" where
  "get_note i rows = (case get_row rows i of
       None \<Rightarrow> Response 404 (ErrorExn NotFound)
     | Some n \<Rightarrow> Response 200 (NoteObj n))"

definition flush_update ::
  "backend \<Rightarrow> Note \<Rightarrow> json \<Rightarrow> json \<Rightarrow> string \<Rightarrow> int \<Rightarrow> Note list \<Rightarrow> exn + Note \<times> Note list" where
  \<comment> \<open>\<^verbatim>\<open>db.session.commit()\<close> after the attribute assignments: an UPDATE is written only
     for attributes whose value differs from the loaded one, and \<open>onupdate\<close> runs with it\<close>
  "flush_update drv n tv cv tg now rows =
     (if tv = JStr (title n) \<and> cv = JStr (content n) \<and> tg = tags n then Inr (n, rows)
      else (case bind_text drv tv of
          Inl e \<Rightarrow> Inl e
        | Inr t \<Rightarrow> (case bind_text drv cv of
            Inl e \<Rightarrow> Inl e
          | Inr c \<Rightarrow>
              (let n' = n\<lparr>title := t, content := c, tags := tg, updated_at := now\<rparr>
               in Inr (n', map (\<lambda>r. if note_id r = note_id n then n' else r) rows)))))"

definition update_note ::
  "backend \<Rightarrow> nat \<Rightarrow> json \<Rightarrow> int \<Rightarrow> Note list \<Rightarrow> response \<times> Note list" where
  "update_note drv i data now rows =
     (case get_row rows i of
        None \<Rightarrow> (Response 500 (ErrorExn NotFound), rows)
      | Some n \<Rightarrow>
          if \<not> truthy data then (Response 400 (ErrorMsg ''No data provided''), rows)
          else (case py_get data ''title'' of
              Inl e \<Rightarrow> (Response 500 (ErrorExn e), rows)
            | Inr t_opt \<Rightarrow>
                (case py_get data ''content'' of
                   Inl e \<Rightarrow> (Response 500 (ErrorExn e), rows)
                 | Inr c_opt \<Rightarrow>
                     (case py_get data ''tags'' of
                        Inl e \<Rightarrow> (Response 500 (ErrorExn e), rows)
                      | Inr g_opt \<Rightarrow>
                          (let tv = (case t_opt of None \<Rightarrow> JStr (title n) | Some v \<Rightarrow> v);
                               cv = (case c_opt of None \<Rightarrow> JStr (content n) | Some v \<Rightarrow> v);
                               tg = (case g_opt of None \<Rightarrow> tags n | Some v \<Rightarrow> normalize_tags v)
                           in case flush_update drv n tv cv tg now rows of
                                Inl e \<Rightarrow> (Response 500 (ErrorExn e), rows)
                              | Inr (n', rows') \<Rightarrow> (Response 200 (NoteObj n'), rows'))))))"

definition delete_note :: "nat \<Rightarrow> Note list \<Rightarrow> response \<times> Note list" where
  "delete_note i rows = (case get_row rows i of
       None \<Rightarrow> (Response 500 (ErrorExn NotFound), rows)
     | Some n \<Rightarrow> (Response 204 Empty, filter (\<lambda>r. note_id r \<noteq> i) rows))"

definition search_notes :: "string option \<Rightarrow> Note list \<Rightarrow> response" where
  "search_notes q rows =
     (let query = strip (case q of None \<Rightarrow> [] | Some s \<Rightarrow> s) in
      if query = [] then Response 200 (NoteList [])
      else (let pattern = contains_pattern query in
            Response 200 (NoteList (order_by_updated_desc
              (filter (\<lambda>n. ilike pattern (title n) \<or> ilike pattern (content n)) rows)))))"

definition requested_tags :: "string list \<Rightarrow> string option \<Rightarrow> string list" where
  \<comment> \<open>the list \<^verbatim>\<open>requested\<close>: the values of \<^verbatim>\<open>tag\<close>, then the pieces of \<^verbatim>\<open>tags\<close>\<close>
  "requested_tags tag_values tags_param =
     map strip (filter (\<lambda>t. t \<noteq> [] \<and> strip t \<noteq> []) tag_values) @
     (case tags_param of
        None \<Rightarrow> []
      | Some p \<Rightarrow> if p = [] then []
                  else map strip (filter (\<lambda>t. strip t \<noteq> []) (split CHR '','' p)))"

fun dedupe :: "string list \<Rightarrow> string list \<Rightarrow> string set \<Rightarrow> string list" where
  \<comment> \<open>the loop over \<^verbatim>\<open>requested\<close>, with its variables \<^verbatim>\<open>tags\<close> and \<^verbatim>\<open>seen\<close>\<close>
  "dedupe [] acc seen = acc"
| "dedupe (t # ts) acc seen =
     (if t \<noteq> [] \<and> lower t \<notin> seen then dedupe ts (acc @ [t]) (insert (lower t) seen)
      else dedupe ts acc seen)"

definition effective_tags :: "string list \<Rightarrow> string option \<Rightarrow> string list" where
  "effective_tags tag_values tags_param = dedupe (requested_tags tag_values tags_param) [] {}"

definition match_any_tag :: "string list \<Rightarrow> Note list \<Rightarrow> Note list" where
  \<comment> \<open>the query \<^verbatim>\<open>filter(or_(...)).order_by(Note.updated_at.desc())\<close>\<close>
  "match_any_tag ts rows =
     order_by_updated_desc
       (filter (\<lambda>n. list_ex (\<lambda>t. ilike (contains_pattern t) (tags n)) ts) rows)"

definition filter_notes_by_tags :: "string list \<Rightarrow> string option \<Rightarrow> Note list \<Rightarrow> response" where
  "filter_notes_by_tags tag_values tags_param rows =
     (let ts = effective_tags tag_values tags_param in
      if ts = [] then Response 200 (NoteList [])
      else Response 200 (NoteList (match_any_tag ts rows)))"

section \<open>The auth routes\<close>

text \<open>
  Modelled from the spec: the User entity (\<^verbatim>\<open>src.models.user\<close>), which the routes import
  but the source files do not hold. An entity has an id, a username, an optional email, and
  whichever of the three password capabilities it exposes: a callable \<open>check_password\<close>,
  an attribute \<open>password_hash\<close>, an attribute \<open>password\<close>. The callable is handed the
  password of the request as it is, whatever JSON value that is; a capability that raises
  returns \<open>None\<close>.
\<close>

record user_entity =
  user_id :: nat
  username :: string
  email :: "string option"
  check_password :: "(json \<Rightarrow> bool option) option"
  password_hash :: "string option"
  password :: "string option"

datatype field = Username | Email

text \<open>
  Modelled from the spec: the class \<open>User\<close> itself: which of the two lookup columns it
  has, what its constructor and its optional \<open>set_password\<close> helper do (\<open>None\<close> when they
  raise), the row that a commit stores (\<open>None\<close> when the commit raises), and what the
  lookup query answers when the value compared with a column is not a str (\<open>None\<close> when
  the query raises).
\<close>

record user_model =
  has_username :: bool
  has_email :: bool
  construct :: "string \<Rightarrow> string option \<Rightarrow> user_entity option"
  set_password :: "(user_entity \<Rightarrow> string \<Rightarrow> user_entity option) option"
  commit_user :: "user_entity list \<Rightarrow> user_entity \<Rightarrow> user_entity option"
  query_other :: "field \<Rightarrow> json \<Rightarrow> user_entity list \<Rightarrow> user_entity option option"

record security =
  \<comment> \<open>the two functions of \<^verbatim>\<open>werkzeug.security\<close>; the hash check takes the password
     of the request as it is\<close>
  check_password_hash :: "string \<Rightarrow> json \<Rightarrow> bool option"
  generate_password_hash :: "string \<Rightarrow> string"


record user_summary =
  \<comment> \<open>Modelled from the spec: \<open>to_dict\<close> of the entity, without password fields\<close>
  sum_id :: nat
  sum_username :: string
  sum_email :: "string option"

definition summary :: "user_entity \<Rightarrow> user_summary" where
  "summary u = \<lparr>sum_id = user_id u, sum_username = username u, sum_email = email u\<rparr>"

datatype auth_body =
    Err string
  | ErrDetail string
  | Done string user_summary
  | Unhandled

datatype auth_response = AuthResponse (auth_status: nat) (auth_body: auth_body)

datatype verifier_call =
    CheckPasswordMethod json
  | CheckPasswordHash string json
  | PlainEquality string json

definition query_first ::
  "user_model \<Rightarrow> user_entity list \<Rightarrow> field \<Rightarrow> json \<Rightarrow> exn + user_entity option" where
  \<comment> \<open>\<^verbatim>\<open>User.query.filter(getattr(User, field) == username).first()\<close>\<close>
  "query_first m rows f v = (case f of
       Username \<Rightarrow>
         if \<not> has_username m then Inl AttributeError
         else (case v of
             JStr name \<Rightarrow> Inr (find (\<lambda>u. username u = name) rows)
           | _ \<Rightarrow> (case query_other m f v rows of None \<Rightarrow> Inl DatabaseError | Some r \<Rightarrow> Inr r))
     | Email \<Rightarrow>
         if \<not> has_email m then Inl AttributeError
         else (case v of
             JStr name \<Rightarrow> Inr (find (\<lambda>u. email u = Some name) rows)
           | _ \<Rightarrow> (case query_other m f v rows of None \<Rightarrow> Inl DatabaseError | Some r \<Rightarrow> Inr r)))"

fun lookup_loop ::
  "user_model \<Rightarrow> user_entity list \<Rightarrow> json \<Rightarrow> field list \<Rightarrow> user_entity option
     \<Rightarrow> user_entity option" where
  \<comment> \<open>\<^verbatim>\<open>for field in ('username', 'email')\<close>, leaving at the first user found\<close>
  "lookup_loop m rows v [] user = user"
| "lookup_loop m rows v (f # fs) user =
     (case query_first m rows f v of
        Inl e \<Rightarrow> lookup_loop m rows v fs None
      | Inr None \<Rightarrow> lookup_loop m rows v fs None
      | Inr (Some u) \<Rightarrow> Some u)"

definition find_user :: "user_model \<Rightarrow> user_entity list \<Rightarrow> json \<Rightarrow> user_entity option" where
  "find_user m rows v = lookup_loop m rows v [Username, Email] None"

definition perform :: "security \<Rightarrow> user_entity \<Rightarrow> verifier_call \<Rightarrow> bool option" where
  \<comment> \<open>what a verifier call returns; \<open>None\<close> when it raises\<close>
  "perform sec u c = (case c of
       CheckPasswordMethod pw \<Rightarrow> (case check_password u of Some f \<Rightarrow> f pw | None \<Rightarrow> None)
     | CheckPasswordHash h pw \<Rightarrow> check_password_hash sec h pw
     | PlainEquality p pw \<Rightarrow> Some (JStr p = pw))"

definition attempt ::
  "security \<Rightarrow> user_entity \<Rightarrow> verifier_call \<Rightarrow> bool option \<times> verifier_call list" where
  \<comment> \<open>a verifier call made: its verdict, and the call in the log of calls\<close>
  "attempt sec u c = (perform sec u c, [c])"

definition verify ::
  "security \<Rightarrow> user_entity \<Rightarrow> json \<Rightarrow> (bool option \<times> verifier_call list) option" where
  \<comment> \<open>the \<^verbatim>\<open>if/elif/elif/else\<close> chain: the one call made, with its verdict; \<open>None\<close> when the
     entity exposes no verifier\<close>
  "verify sec u pw = (case check_password u of
       Some f \<Rightarrow> Some (attempt sec u (CheckPasswordMethod pw))
     | None \<Rightarrow> (case password_hash u of
         Some h \<Rightarrow> Some (attempt sec u (CheckPasswordHash h pw))
       | None \<Rightarrow> (case password u of
           Some p \<Rightarrow> Some (attempt sec u (PlainEquality p pw))
         | None \<Rightarrow> None)))"

definition login ::
  "security \<Rightarrow> user_model option \<Rightarrow> user_entity list \<Rightarrow> json
     \<Rightarrow> auth_response \<times> verifier_call list" where
  \<comment> \<open>\<open>payload\<close> is what \<^verbatim>\<open>request.get_json(silent=True)\<close> returns, \<open>JNull\<close> for \<^verbatim>\<open>None\<close>; a
     payload that is not a dict has no \<^verbatim>\<open>get\<close>, and nothing catches that\<close>
  "login sec model rows payload =
     (let data = (if truthy payload then payload else JObj []) in
      case py_get data ''username'' of
        Inl e \<Rightarrow> (AuthResponse 500 Unhandled, [])
      | Inr name_opt \<Rightarrow>
          (case py_get data ''password'' of
             Inl e \<Rightarrow> (AuthResponse 500 Unhandled, [])
           | Inr pw_opt \<Rightarrow>
               (case (name_opt, pw_opt) of
                  (Some name, Some pw) \<Rightarrow>
                    if \<not> truthy name \<or> \<not> truthy pw
                    then (AuthResponse 400 (Err ''username and password are required''), [])
                    else (case model of
                        None \<Rightarrow> (AuthResponse 500 (ErrDetail ''User model not available''), [])
                      | Some m \<Rightarrow>
                          (case find_user m rows name of
                             None \<Rightarrow> (AuthResponse 401 (Err ''Invalid credentials''), [])
                           | Some u \<Rightarrow>
                               (case verify sec u pw of
                                  None \<Rightarrow>
                                    (AuthResponse 500
                                       (Err ''No password verifier available for User model''), [])
                                | Some (None, calls) \<Rightarrow>
                                    (AuthResponse 500 (ErrDetail ''Authentication failed''), calls)
                                | Some (Some False, calls) \<Rightarrow>
                                    (AuthResponse 401 (Err ''Invalid credentials''), calls)
                                | Some (Some True, calls) \<Rightarrow>
                                    (AuthResponse 200 (Done ''Login successful'' (summary u)),
                                     calls))))
                | _ \<Rightarrow> (AuthResponse 400 (Err ''username and password are required''), []))))"




section \<open>The specification's wording, as definitions\<close>

definition spec_requested :: "string list \<Rightarrow> string option \<Rightarrow> string list" where
  \<comment> \<open>both sources merged, each value trimmed, empty values dropped\<close>
  "spec_requested tag_values tags_param =
     filter (\<lambda>t. t \<noteq> [])
       (map strip (tag_values @ (case tags_param of None \<Rightarrow> [] | Some p \<Rightarrow> split CHR '','' p)))"

function first_occurrences :: "string list \<Rightarrow> string list" where
  \<comment> \<open>case-insensitive deduplication: a value stays, its later case variants go\<close>
  "first_occurrences [] = []"
| "first_occurrences (x # xs) = x # first_occurrences (filter (\<lambda>y. lower y \<noteq> lower x) xs)"
  by pat_completeness auto
termination
  by (relation "measure length") (auto simp: less_Suc_eq_le)

fun spec_stored_tags :: "json option \<Rightarrow> string \<Rightarrow> bool" where
  \<comment> \<open>the stored tag string for an absent input, a single string, a sequence; the
     specification says nothing of other inputs\<close>
  "spec_stored_tags None stored = (stored = [])"
| "spec_stored_tags (Some (JStr s)) stored = (stored = strip s)"
| "spec_stored_tags (Some (JList ts)) stored =
     (stored = join '','' (map (\<lambda>t. strip (py_str t)) (filter (\<lambda>t. t \<noteq> JNull) ts)))"
| "spec_stored_tags (Some v) stored = True"

definition submitted ::
  "Note \<Rightarrow> (string \<times> json) list \<Rightarrow> json \<times> json \<times> string" where
  "submitted n kvs =
     ((case map_of kvs ''title'' of None \<Rightarrow> JStr (title n) | Some v \<Rightarrow> v),
      (case map_of kvs ''content'' of None \<Rightarrow> JStr (content n) | Some v \<Rightarrow> v),
      (case map_of kvs ''tags'' of None \<Rightarrow> tags n | Some v \<Rightarrow> normalize_tags v))"

definition submitted_equal :: "Note \<Rightarrow> (string \<times> json) list \<Rightarrow> bool" where
  "submitted_equal n kvs =
     ((case map_of kvs ''title'' of None \<Rightarrow> True | Some v \<Rightarrow> v = JStr (title n)) \<and>
      (case map_of kvs ''content'' of None \<Rightarrow> True | Some v \<Rightarrow> v = JStr (content n)) \<and>
      (case map_of kvs ''tags'' of None \<Rightarrow> True | Some v \<Rightarrow> normalize_tags v = tags n))"

text \<open>A run of the note store: the write requests it serves, each with the clock readings it takes.\<close>

datatype operation = Create json int int | Update nat json int | Delete nat

fun apply_operation :: "backend \<Rightarrow> operation \<Rightarrow> Note list \<Rightarrow> Note list" where
  "apply_operation drv (Create data t_created t_updated) rows =
     snd (create_note drv data t_created t_updated rows)"
| "apply_operation drv (Update i data now) rows = snd (update_note drv i data now rows)"
| "apply_operation drv (Delete i) rows = snd (delete_note i rows)"

fun readings :: "operation \<Rightarrow> int list" where
  "readings (Create data t_created t_updated) = [t_created, t_updated]"
| "readings (Update i data now) = [now]"
| "readings (Delete i) = []"

definition stamped :: "int \<Rightarrow> Note list \<Rightarrow> bool" where
  "stamped t rows = (\<forall>n\<in>set rows. created_at n \<le> updated_at n \<and> updated_at n \<le> t)"

definition answer_for :: "user_entity \<Rightarrow> bool option \<Rightarrow> auth_response" where
  \<comment> \<open>the answer to a login whose password check gave this verdict: the user summary when
     it is true, the credentials error when it is false, the failure with a detail when the
     check raised\<close>
  "answer_for u verdict = (case verdict of
       Some True \<Rightarrow> AuthResponse 200 (Done ''Login successful'' (summary u))
     | Some False \<Rightarrow> AuthResponse 401 (Err ''Invalid credentials'')
     | None \<Rightarrow> AuthResponse 500 (ErrDetail ''Authentication failed''))"


section \<open>Properties of the string functions\<close>

lemma strip_Nil [simp]: "strip [] = []"
  by (simp add: strip_def)

text \<open>
  What \<open>strip\<close> returns is the text without a run of whitespace at each end, and it
  neither starts nor ends with whitespace; splitting a comma-joined list of comma-free
  pieces gives the pieces back, in order and with repetitions.
\<close>

lemma strip_decomposition:
  "\<exists>a b. s = a @ strip s @ b \<and> list_all isspace a \<and> list_all isspace b"
proof -
  let ?d = "dropWhile isspace s"
  have 1: "s = takeWhile isspace s @ ?d" by simp
  have "rev (takeWhile isspace (rev ?d) @ dropWhile isspace (rev ?d)) = ?d"
    by (simp only: takeWhile_dropWhile_id rev_rev_ident)
  then have 2: "?d = strip s @ rev (takeWhile isspace (rev ?d))"
    by (simp only: rev_append strip_def)
  have 3: "list_all isspace (takeWhile isspace s)"
    by (auto simp: list_all_iff dest: set_takeWhileD)
  have 4: "list_all isspace (rev (takeWhile isspace (rev ?d)))"
    by (auto simp: list_all_iff dest: set_takeWhileD)
  from 1 2 have "s = takeWhile isspace s @ strip s @ rev (takeWhile isspace (rev ?d))"
    by metis
  with 3 4 show ?thesis by blast
qed

lemma strip_ends:
  assumes "strip s \<noteq> []"
  shows "\<not> isspace (hd (strip s)) \<and> \<not> isspace (last (strip s))"
proof -
  let ?d = "dropWhile isspace s"
  let ?e = "dropWhile isspace (rev ?d)"
  from assms have e: "?e \<noteq> []" by (simp add: strip_def)
  then have d: "?d \<noteq> []" by (metis dropWhile.simps(1) rev.simps(1))
  have "last (strip s) = hd ?e" using e by (simp add: strip_def last_rev)
  moreover have "\<not> isspace (hd ?e)" using e by (rule hd_dropWhile)
  moreover have "hd (strip s) = last ?e" using e by (simp add: strip_def hd_rev)
  moreover have "last ?e = last (rev ?d)"
    using e by (metis append_Nil2 last_appendR takeWhile_dropWhile_id)
  moreover have "last (rev ?d) = hd ?d" using d by (simp add: last_rev)
  moreover have "\<not> isspace (hd ?d)" using d by (rule hd_dropWhile)
  ultimately show ?thesis by simp
qed

lemma split_join:
  "xs \<noteq> [] \<Longrightarrow> \<forall>x\<in>set xs. d \<notin> set x \<Longrightarrow> split d (join [d] xs) = xs"
proof (induction "[d]" xs rule: join.induct)
  case 1
  then show ?case by simp
next
  case (2 x)
  then show ?case by (induction x) auto
next
  case (3 x y ys)
  then have ih: "split d (join [d] (y # ys)) = y # ys" by simp
  from 3 have "d \<notin> set x" by simp
  then have "split d (x @ d # r) = x # split d r" for r
    by (induction x) (auto split: list.splits)
  with ih show ?case by simp
qed

section \<open>The requested tags of the tag filter\<close>

lemma requested_tags_alt: "requested_tags tv tp = spec_requested tv tp"
proof -
  have a: "map strip (filter (\<lambda>t. t \<noteq> [] \<and> strip t \<noteq> []) xs)
         = filter (\<lambda>t. t \<noteq> []) (map strip xs)" for xs
    by (induction xs) auto
  have b: "map strip (filter (\<lambda>t. strip t \<noteq> []) xs)
         = filter (\<lambda>t. t \<noteq> []) (map strip xs)" for xs
    by (induction xs) auto
  show ?thesis
    by (cases tp) (simp_all add: requested_tags_def spec_requested_def a b)
qed

lemma dedupe_first_occurrences:
  "\<forall>x\<in>set xs. x \<noteq> [] \<Longrightarrow>
   dedupe xs acc seen = acc @ first_occurrences (filter (\<lambda>x. lower x \<notin> seen) xs)"
proof (induction xs arbitrary: acc seen)
  case Nil
  then show ?case by simp
next
  case (Cons x xs)
  have eq: "filter (\<lambda>y. lower y \<notin> insert (lower x) seen) xs
          = filter (\<lambda>y. lower y \<noteq> lower x) (filter (\<lambda>y. lower y \<notin> seen) xs)"
    by (induction xs) auto
  from Cons.prems have ne: "x \<noteq> []" and rest: "\<forall>y\<in>set xs. y \<noteq> []" by simp_all
  show ?case
  proof (cases "lower x \<in> seen")
    case True
    with ne Cons.IH [OF rest] show ?thesis by simp
  next
    case False
    have eq2: "filter (\<lambda>y. lower y \<noteq> lower x \<and> lower y \<notin> seen) xs
             = filter (\<lambda>y. lower y \<notin> seen \<and> lower y \<noteq> lower x) xs"
      by (rule filter_cong) auto
    from False ne Cons.IH [OF rest, of "acc @ [x]" "insert (lower x) seen"] show ?thesis
      by (simp add: eq eq2)
  qed
qed

lemma effective_tags_spec: "effective_tags tv tp = first_occurrences (spec_requested tv tp)"
proof -
  have "\<forall>x\<in>set (spec_requested tv tp). x \<noteq> []" by (auto simp: spec_requested_def)
  from dedupe_first_occurrences [OF this, of "[]" "{}"] show ?thesis
    by (simp add: effective_tags_def requested_tags_alt)
qed

lemma first_occurrences_subset: "set (first_occurrences xs) \<subseteq> set xs"
  by (induction xs rule: first_occurrences.induct) auto

lemma first_occurrences_lower_set: "lower ` set (first_occurrences xs) = lower ` set xs"
  by (induction xs rule: first_occurrences.induct) auto

lemma first_occurrences_distinct: "distinct (map lower (first_occurrences xs))"
proof (induction xs rule: first_occurrences.induct)
  case 1
  then show ?case by simp
next
  case (2 x xs)
  have "lower x \<notin> lower ` set (first_occurrences (filter (\<lambda>y. lower y \<noteq> lower x) xs))"
    using first_occurrences_subset [of "filter (\<lambda>y. lower y \<noteq> lower x) xs"] by auto
  with 2 show ?case by simp
qed

text \<open>
  C3. The tag filter works on the list obtained from the values of the repeated parameter
  followed by the comma-separated pieces of the combined parameter, each trimmed, the empty
  ones dropped, and of every group of case variants only the first kept, in its own
  casing. When that list is empty the answer is the empty list of notes; otherwise it is
  the match against that list.
\<close>

theorem filter_tags_requested_list:
  "effective_tags tv tp = first_occurrences (spec_requested tv tp) \<and>
   filter_notes_by_tags tv tp rows =
     (if first_occurrences (spec_requested tv tp) = [] then Response 200 (NoteList [])
      else Response 200
             (NoteList (match_any_tag (first_occurrences (spec_requested tv tp)) rows)))"
  by (simp add: filter_notes_by_tags_def effective_tags_spec)

theorem filter_tags_requested_list_witness:
  "effective_tags [''Art'', ''art''] None = [''Art''] \<and>
   filter_notes_by_tags [''  '', ''''] (Some '' , '')
      [\<lparr>note_id = 1, title = ''t'', content = ''c'', tags = ''art'',
        created_at = 1, updated_at = 1\<rparr>]
     = Response 200 (NoteList [])"
proof -
  have a: "first_occurrences (spec_requested [''Art'', ''art''] None) = [''Art'']"
    by code_simp
  have b: "first_occurrences (spec_requested [''  '', ''''] (Some '' , '')) = []"
    by code_simp
  show ?thesis
    using filter_tags_requested_list [of "[''Art'', ''art'']" None]
      filter_tags_requested_list [of "[''  '', '''']" "Some '' , ''"]
    by (simp add: a b)
qed

section \<open>Creating a note\<close>

lemma normalize_tags_spec:
  "spec_stored_tags g (normalize_tags (case g of None \<Rightarrow> JStr [] | Some v \<Rightarrow> v))"
proof (cases g)
  case None
  then show ?thesis by (simp add: normalize_tags_def py_str_def)
next
  case (Some v)
  then show ?thesis by (cases v) (simp_all add: normalize_tags_def py_str_def)
qed

lemma map_of_present: "map_of kvs k = Some v \<Longrightarrow> k \<in> fst ` set kvs"
  by (metis map_of_eq_None_iff option.distinct(1))

lemma create_note_created:
  assumes "create_note drv data tc tu rows = (resp, rows')" and "status resp = 201"
  shows "\<exists>kvs tv cv n. data = JObj kvs \<and> map_of kvs ''title'' = Some tv \<and>
           map_of kvs ''content'' = Some cv \<and> bind_text drv tv = Inr (title n) \<and>
           bind_text drv cv = Inr (content n) \<and>
           tags n = normalize_tags (case map_of kvs ''tags'' of None \<Rightarrow> JStr [] | Some v \<Rightarrow> v) \<and>
           note_id n = new_id rows \<and> created_at n = tc \<and> updated_at n = tu \<and>
           resp = Response 201 (NoteObj n) \<and> rows' = rows @ [n]"
  using assms
  by (auto simp: create_note_def missing_fields_def py_in_def py_get_def py_item_def insert_note_def Let_def
      split: json.splits sum.splits bool.splits option.splits if_splits)

lemma create_note_success:
  assumes "map_of kvs ''title'' = Some tv" "map_of kvs ''content'' = Some cv"
    and "bind_text drv tv = Inr t" "bind_text drv cv = Inr c"
  shows "create_note drv (JObj kvs) tc tu rows =
     (let n = \<lparr>note_id = new_id rows, title = t, content = c,
               tags = normalize_tags (case map_of kvs ''tags'' of None \<Rightarrow> JStr [] | Some v \<Rightarrow> v),
               created_at = tc, updated_at = tu\<rparr>
      in (Response 201 (NoteObj n), rows @ [n]))"
proof -
  from assms(1) have k1: "''title'' \<in> fst ` set kvs" by (rule map_of_present)
  from assms(2) have k2: "''content'' \<in> fst ` set kvs" by (rule map_of_present)
  from k1 have ne: "kvs \<noteq> []" by auto
  show ?thesis
    using assms k1 k2 ne
    by (simp add: create_note_def missing_fields_def py_in_def py_get_def py_item_def insert_note_def Let_def)
qed

text \<open>
  C2. A create request that is accepted stores the tag string the specification describes:
  for a sequence, its elements other than null, each turned into text and trimmed, joined
  by commas in order and with repetitions kept; for a single string, the string trimmed;
  for no tags at all, the empty string. A request whose title and content are strings is
  accepted.
\<close>

theorem create_note_stored_tags:
  "(create_note drv data tc tu rows = (resp, rows') \<and> status resp = 201 \<longrightarrow>
      (\<exists>kvs n. data = JObj kvs \<and> resp = Response 201 (NoteObj n) \<and> rows' = rows @ [n] \<and>
         spec_stored_tags (map_of kvs ''tags'') (tags n))) \<and>
   (data = JObj kvs \<and> map_of kvs ''title'' = Some (JStr t) \<and>
    map_of kvs ''content'' = Some (JStr c) \<longrightarrow>
      (\<exists>n. create_note drv data tc tu rows = (Response 201 (NoteObj n), rows @ [n]) \<and>
         title n = t \<and> content n = c \<and> spec_stored_tags (map_of kvs ''tags'') (tags n)))"
proof (intro conjI impI)
  assume "create_note drv data tc tu rows = (resp, rows') \<and> status resp = 201"
  then obtain kvs n where "data = JObj kvs" "resp = Response 201 (NoteObj n)" "rows' = rows @ [n]"
    "tags n = normalize_tags (case map_of kvs ''tags'' of None \<Rightarrow> JStr [] | Some v \<Rightarrow> v)"
    using create_note_created [of drv data tc tu rows resp rows'] by blast
  then show "\<exists>kvs n. data = JObj kvs \<and> resp = Response 201 (NoteObj n) \<and> rows' = rows @ [n] \<and>
         spec_stored_tags (map_of kvs ''tags'') (tags n)"
    using normalize_tags_spec [of "map_of kvs ''tags''"] by auto
next
  assume a: "data = JObj kvs \<and> map_of kvs ''title'' = Some (JStr t) \<and>
    map_of kvs ''content'' = Some (JStr c)"
  have b: "bind_text drv (JStr t) = Inr t" "bind_text drv (JStr c) = Inr c"
    by (simp_all add: bind_text_def)
  from a create_note_success [of kvs "JStr t" "JStr c" drv t c tc tu rows] b
  show "\<exists>n. create_note drv data tc tu rows = (Response 201 (NoteObj n), rows @ [n]) \<and>
         title n = t \<and> content n = c \<and> spec_stored_tags (map_of kvs ''tags'') (tags n)"
    using normalize_tags_spec [of "map_of kvs ''tags''"] by (simp add: Let_def)
qed

theorem create_note_stored_tags_witness:
  "\<exists>n. create_note (\<lambda>v. None)
         (JObj [(''title'', JStr ''T''), (''content'', JStr ''C''),
                (''tags'', JList [JStr ''a'', JStr '' b '', JNull, JStr ''a''])]) 5 6 []
        = (Response 201 (NoteObj n), [n]) \<and> tags n = ''a,b,a''"
proof -
  let ?kvs = "[(''title'', JStr ''T''), (''content'', JStr ''C''),
                (''tags'', JList [JStr ''a'', JStr '' b '', JNull, JStr ''a''])]"
  have e: "strip (py_str (JStr ''a'')) = ''a''" "strip (py_str (JStr '' b '')) = ''b''"
    by code_simp+
  have "JObj ?kvs = JObj ?kvs \<and> map_of ?kvs ''title'' = Some (JStr ''T'') \<and>
        map_of ?kvs ''content'' = Some (JStr ''C'')"
    by simp
  with create_note_stored_tags [where data = "JObj ?kvs" and kvs = ?kvs and t = "''T''"
      and c = "''C''" and drv = "\<lambda>v. None" and tc = 5 and tu = 6 and rows = "[]", THEN conjunct2]
  show ?thesis by (auto simp: e)
qed

section \<open>What create accepts\<close>

lemma bind_text_not_null: "bind_text drv v = Inr s \<Longrightarrow> v \<noteq> JNull"
  by (auto simp: bind_text_def)

lemma get_row_in: "get_row rows i = Some n \<Longrightarrow> n \<in> set rows \<and> note_id n = i"
  by (auto simp: get_row_def find_Some_iff)

lemma update_note_null_rejected:
  assumes "get_row rows i = Some n"
    and "map_of kvs ''title'' = Some JNull \<or> map_of kvs ''content'' = Some JNull"
  shows "update_note drv i (JObj kvs) now rows = (Response 500 (ErrorExn DatabaseError), rows)"
proof -
  from assms(2) have ne: "kvs \<noteq> []" by auto
  show ?thesis
    using assms ne
    by (auto simp: update_note_def py_get_def flush_update_def bind_text_def Let_def
        split: option.splits json.splits sum.splits)
qed

text \<open>
  C10 as stated fails: a request whose title and content are empty strings is accepted and
  stored.
\<close>

theorem create_note_empty_title_counterexample:
  "create_note (\<lambda>v. None) (JObj [(''title'', JStr ''''), (''content'', JStr '''')]) 1 1 [] =
     (Response 201 (NoteObj \<lparr>note_id = 1, title = '''', content = '''', tags = '''',
                             created_at = 1, updated_at = 1\<rparr>),
      [\<lparr>note_id = 1, title = '''', content = '''', tags = '''',
         created_at = 1, updated_at = 1\<rparr>])"
  by (simp add: create_note_def missing_fields_def py_in_def py_get_def py_item_def
      insert_note_def bind_text_def normalize_tags_def py_str_def new_id_def)

text \<open>
  C10, as the code has it. Create asks only that the request holds a title and a content:
  a note is accepted with both present and neither null, an empty string included, and a
  string is stored as given. An update that submits null for the title or the content is
  refused with status 500 and leaves the table as it was.
\<close>

theorem create_note_fields_not_null:
  "(create_note drv data tc tu rows = (resp, rows') \<and> status resp = 201 \<longrightarrow>
      (\<exists>kvs tv cv n. data = JObj kvs \<and> resp = Response 201 (NoteObj n) \<and>
         map_of kvs ''title'' = Some tv \<and> tv \<noteq> JNull \<and> bind_text drv tv = Inr (title n) \<and>
         map_of kvs ''content'' = Some cv \<and> cv \<noteq> JNull \<and> bind_text drv cv = Inr (content n))) \<and>
   (get_row rows i = Some n \<and>
    (map_of kvs ''title'' = Some JNull \<or> map_of kvs ''content'' = Some JNull) \<longrightarrow>
      update_note drv i (JObj kvs) now rows = (Response 500 (ErrorExn DatabaseError), rows))"
proof (intro conjI impI)
  assume "create_note drv data tc tu rows = (resp, rows') \<and> status resp = 201"
  then obtain kvs tv cv n where *: "data = JObj kvs" "map_of kvs ''title'' = Some tv"
    "map_of kvs ''content'' = Some cv" "bind_text drv tv = Inr (title n)"
    "bind_text drv cv = Inr (content n)" "resp = Response 201 (NoteObj n)"
    using create_note_created [of drv data tc tu rows resp rows'] by blast
  from *(4,5) have "tv \<noteq> JNull" "cv \<noteq> JNull" by (auto dest: bind_text_not_null)
  with * show "\<exists>kvs tv cv n. data = JObj kvs \<and> resp = Response 201 (NoteObj n) \<and>
         map_of kvs ''title'' = Some tv \<and> tv \<noteq> JNull \<and> bind_text drv tv = Inr (title n) \<and>
         map_of kvs ''content'' = Some cv \<and> cv \<noteq> JNull \<and> bind_text drv cv = Inr (content n)"
    by blast
next
  assume "get_row rows i = Some n \<and>
    (map_of kvs ''title'' = Some JNull \<or> map_of kvs ''content'' = Some JNull)"
  then show "update_note drv i (JObj kvs) now rows = (Response 500 (ErrorExn DatabaseError), rows)"
    using update_note_null_rejected by blast
qed

theorem create_note_fields_not_null_witness:
  "update_note (\<lambda>v. None) 1 (JObj [(''title'', JNull)]) 9
     [\<lparr>note_id = 1, title = ''T'', content = ''C'', tags = '''', created_at = 1, updated_at = 2\<rparr>]
   = (Response 500 (ErrorExn DatabaseError),
      [\<lparr>note_id = 1, title = ''T'', content = ''C'', tags = '''', created_at = 1, updated_at = 2\<rparr>])
   \<and> (\<exists>tv cv. map_of [(''title'', JStr ''''), (''content'', JStr '''')] ''title'' = Some tv \<and>
         tv \<noteq> JNull \<and>
         map_of [(''title'', JStr ''''), (''content'', JStr '''')] ''content'' = Some cv \<and>
         cv \<noteq> JNull)"
proof -
  let ?row = "\<lparr>note_id = 1, title = ''T'', content = ''C'', tags = '''',
               created_at = 1, updated_at = 2\<rparr>"
  let ?n = "\<lparr>note_id = 1, title = '''', content = '''', tags = '''', created_at = 1, updated_at = 1\<rparr>"
  have a: "get_row [?row] 1 = Some ?row" by (simp add: get_row_def)
  have b: "create_note (\<lambda>v. None) (JObj [(''title'', JStr ''''), (''content'', JStr '''')]) 1 1 []
      = (Response 201 (NoteObj ?n), [?n]) \<and> status (Response 201 (NoteObj ?n)) = 201"
    by (simp add: create_note_def missing_fields_def py_in_def py_get_def py_item_def
      insert_note_def bind_text_def normalize_tags_def py_str_def new_id_def)
  from create_note_fields_not_null [where drv = "\<lambda>v. None" and rows = "[?row]" and i = 1
      and n = ?row and kvs = "[(''title'', JNull)]" and now = 9, THEN conjunct2] a
  have 1: "update_note (\<lambda>v. None) 1 (JObj [(''title'', JNull)]) 9 [?row]
     = (Response 500 (ErrorExn DatabaseError), [?row])"
    by simp
  from create_note_fields_not_null [where drv = "\<lambda>v. None" and rows = "[]" and tc = 1 and tu = 1
      and data = "JObj [(''title'', JStr ''''), (''content'', JStr '''')]"
      and resp = "Response 201 (NoteObj ?n)" and rows' = "[?n]", THEN conjunct1] b
  have 2: "\<exists>tv cv. map_of [(''title'', JStr ''''), (''content'', JStr '''')] ''title'' = Some tv \<and>
         tv \<noteq> JNull \<and>
         map_of [(''title'', JStr ''''), (''content'', JStr '''')] ''content'' = Some cv \<and>
         cv \<noteq> JNull"
    by blast
  from 1 2 show ?thesis by blast
qed

section \<open>Updating a note\<close>

lemma flush_update_same:
  "tv = JStr (title n) \<Longrightarrow> cv = JStr (content n) \<Longrightarrow> tg = tags n \<Longrightarrow>
   flush_update drv n tv cv tg now rows = Inr (n, rows)"
  by (simp add: flush_update_def)

lemma flush_update_changed:
  assumes "\<not> (tv = JStr (title n) \<and> cv = JStr (content n) \<and> tg = tags n)"
    and "flush_update drv n tv cv tg now rows = Inr (n', rows')"
  shows "bind_text drv tv = Inr (title n') \<and> bind_text drv cv = Inr (content n') \<and>
         tags n' = tg \<and> updated_at n' = now \<and> note_id n' = note_id n \<and>
         created_at n' = created_at n \<and>
         rows' = map (\<lambda>r. if note_id r = note_id n then n' else r) rows"
proof -
  from assms obtain t c where t: "bind_text drv tv = Inr t" and c: "bind_text drv cv = Inr c"
    and r: "Inr (n\<lparr>title := t, content := c, tags := tg, updated_at := now\<rparr>,
             map (\<lambda>r. if note_id r = note_id n
                       then n\<lparr>title := t, content := c, tags := tg, updated_at := now\<rparr> else r) rows)
          = (Inr (n', rows') :: exn + Note \<times> Note list)"
    by (auto simp: flush_update_def Let_def split: sum.splits if_splits)
  from r have n': "n' = n\<lparr>title := t, content := c, tags := tg, updated_at := now\<rparr>"
    and rows': "rows' = map (\<lambda>r. if note_id r = note_id n then n' else r) rows"
    by auto
  show ?thesis using t c rows' by (simp add: n')
qed

lemma update_note_obj:
  assumes "get_row rows i = Some n" and "kvs \<noteq> []"
  shows "update_note drv i (JObj kvs) now rows =
     (case submitted n kvs of (tv, cv, tg) \<Rightarrow>
        (case flush_update drv n tv cv tg now rows of
           Inl e \<Rightarrow> (Response 500 (ErrorExn e), rows)
         | Inr (n', rows') \<Rightarrow> (Response 200 (NoteObj n'), rows')))"
  using assms by (simp add: update_note_def py_get_def submitted_def Let_def)

lemma update_note_not_obj:
  assumes "get_row rows i = Some n" and "\<forall>kvs. data \<noteq> JObj kvs \<or> kvs = []"
  shows "status (fst (update_note drv i data now rows)) \<noteq> 200"
  using assms by (cases data) (simp_all add: update_note_def py_get_def)

lemma submitted_equal_iff:
  "submitted_equal n kvs \<longleftrightarrow>
     (case submitted n kvs of (tv, cv, tg) \<Rightarrow>
        tv = JStr (title n) \<and> cv = JStr (content n) \<and> tg = tags n)"
  by (simp add: submitted_equal_def submitted_def split: option.splits)

lemma bind_text_str: "bind_text drv (JStr s) = Inr s"
  by (simp add: bind_text_def)

lemma update_note_ok:
  assumes g: "get_row rows i = Some n"
    and u: "update_note drv i data now rows = (resp, rows')" and s: "status resp = 200"
  shows "\<exists>kvs n'. data = JObj kvs \<and> kvs \<noteq> [] \<and> resp = Response 200 (NoteObj n') \<and>
     (case map_of kvs ''title'' of None \<Rightarrow> title n' = title n
        | Some v \<Rightarrow> bind_text drv v = Inr (title n')) \<and>
     (case map_of kvs ''content'' of None \<Rightarrow> content n' = content n
        | Some v \<Rightarrow> bind_text drv v = Inr (content n')) \<and>
     (case map_of kvs ''tags'' of None \<Rightarrow> tags n' = tags n
        | Some v \<Rightarrow> tags n' = normalize_tags v) \<and>
     note_id n' = note_id n \<and> created_at n' = created_at n \<and>
     updated_at n' = (if submitted_equal n kvs then updated_at n else now) \<and>
     rows' = (if submitted_equal n kvs then rows
              else map (\<lambda>r. if note_id r = note_id n then n' else r) rows)"
proof -
  from u s have "status (fst (update_note drv i data now rows)) = 200" by simp
  with update_note_not_obj [OF g, of data drv now]
  obtain kvs where d: "data = JObj kvs" and ne: "kvs \<noteq> []" by blast
  obtain tv cv tg where sub: "submitted n kvs = (tv, cv, tg)" by (cases "submitted n kvs")
  from sub have tv: "tv = (case map_of kvs ''title'' of None \<Rightarrow> JStr (title n) | Some v \<Rightarrow> v)"
    and cv: "cv = (case map_of kvs ''content'' of None \<Rightarrow> JStr (content n) | Some v \<Rightarrow> v)"
    and tg: "tg = (case map_of kvs ''tags'' of None \<Rightarrow> tags n | Some v \<Rightarrow> normalize_tags v)"
    by (simp_all add: submitted_def)
  from u d have u': "(case flush_update drv n tv cv tg now rows of
           Inl e \<Rightarrow> (Response 500 (ErrorExn e), rows)
         | Inr (n', rows') \<Rightarrow> (Response 200 (NoteObj n'), rows')) = (resp, rows')"
    using update_note_obj [OF g ne, of drv now] sub by simp
  with s obtain n' where f: "flush_update drv n tv cv tg now rows = Inr (n', rows')"
    and r: "resp = Response 200 (NoteObj n')"
    by (cases "flush_update drv n tv cv tg now rows") auto
  have eq: "submitted_equal n kvs \<longleftrightarrow> tv = JStr (title n) \<and> cv = JStr (content n) \<and> tg = tags n"
    using sub by (simp add: submitted_equal_iff)
  have fields: "bind_text drv tv = Inr (title n') \<and> bind_text drv cv = Inr (content n') \<and>
         tags n' = tg \<and> note_id n' = note_id n \<and> created_at n' = created_at n \<and>
         updated_at n' = (if submitted_equal n kvs then updated_at n else now) \<and>
         rows' = (if submitted_equal n kvs then rows
                  else map (\<lambda>r. if note_id r = note_id n then n' else r) rows)"
  proof (cases "submitted_equal n kvs")
    case True
    with eq have same: "tv = JStr (title n)" "cv = JStr (content n)" "tg = tags n" by simp_all
    from f flush_update_same [OF same, of drv now rows] have "n' = n" "rows' = rows" by simp_all
    with True same show ?thesis by (simp add: bind_text_str)
  next
    case False
    with eq have "\<not> (tv = JStr (title n) \<and> cv = JStr (content n) \<and> tg = tags n)" by simp
    from flush_update_changed [OF this f] False show ?thesis by simp
  qed
  have 1: "case map_of kvs ''title'' of None \<Rightarrow> title n' = title n
        | Some v \<Rightarrow> bind_text drv v = Inr (title n')"
    using fields tv by (simp add: bind_text_str split: option.splits)
  have 2: "case map_of kvs ''content'' of None \<Rightarrow> content n' = content n
        | Some v \<Rightarrow> bind_text drv v = Inr (content n')"
    using fields cv by (simp add: bind_text_str split: option.splits)
  have 3: "case map_of kvs ''tags'' of None \<Rightarrow> tags n' = tags n
        | Some v \<Rightarrow> tags n' = normalize_tags v"
    using fields tg by (simp split: option.splits)
  from d ne r 1 2 3 fields show ?thesis by blast
qed

lemma update_note_succeeds:
  assumes g: "get_row rows i = Some n" and ne: "kvs \<noteq> []"
    and t: "\<forall>v. map_of kvs ''title'' = Some v \<longrightarrow> (\<exists>s. v = JStr s)"
    and c: "\<forall>v. map_of kvs ''content'' = Some v \<longrightarrow> (\<exists>s. v = JStr s)"
  shows "status (fst (update_note drv i (JObj kvs) now rows)) = 200"
proof -
  obtain tv cv tg where sub: "submitted n kvs = (tv, cv, tg)" by (cases "submitted n kvs")
  from sub t obtain s1 where tv: "tv = JStr s1"
    by (cases "map_of kvs ''title''") (auto simp: submitted_def)
  from sub c obtain s2 where cv: "cv = JStr s2"
    by (cases "map_of kvs ''content''") (auto simp: submitted_def)
  have "\<exists>n' rows'. flush_update drv n tv cv tg now rows = Inr (n', rows')"
    by (simp add: flush_update_def tv cv bind_text_str Let_def)
  then show ?thesis
    using update_note_obj [OF g ne, of drv now] sub by auto
qed

text \<open>
  C5 as stated fails: submitting the title the note already has succeeds and leaves
  \<open>updated_at\<close> at its old value, 2, although the clock reads 9.
\<close>

theorem update_note_same_values_counterexample:
  "update_note (\<lambda>v. None) 1 (JObj [(''title'', JStr ''X'')]) 9
     [\<lparr>note_id = 1, title = ''X'', content = ''C'', tags = ''a'', created_at = 1, updated_at = 2\<rparr>]
   = (Response 200
        (NoteObj \<lparr>note_id = 1, title = ''X'', content = ''C'', tags = ''a'',
                  created_at = 1, updated_at = 2\<rparr>),
      [\<lparr>note_id = 1, title = ''X'', content = ''C'', tags = ''a'', created_at = 1, updated_at = 2\<rparr>])"
  by (simp add: update_note_def get_row_def py_get_def flush_update_def Let_def)

text \<open>
  C5, as the code has it. A successful update of an existing note has a non-empty object as
  its body; a title or content in the body replaces the stored one, tags in the body
  replace the stored tags after normalisation, and what the body leaves out stays. The id
  and \<open>created_at\<close> stay. \<open>updated_at\<close> becomes the current time when a submitted value
  differs from the loaded one, and stays when none does. An update whose title and content,
  where present, are strings succeeds.
\<close>

theorem update_note_fields:
  "(get_row rows i = Some n \<and> update_note drv i data now rows = (resp, rows') \<and>
    status resp = 200 \<longrightarrow>
      (\<exists>kvs n'. data = JObj kvs \<and> kvs \<noteq> [] \<and> resp = Response 200 (NoteObj n') \<and>
         (case map_of kvs ''title'' of None \<Rightarrow> title n' = title n
            | Some v \<Rightarrow> bind_text drv v = Inr (title n')) \<and>
         (case map_of kvs ''content'' of None \<Rightarrow> content n' = content n
            | Some v \<Rightarrow> bind_text drv v = Inr (content n')) \<and>
         (case map_of kvs ''tags'' of None \<Rightarrow> tags n' = tags n
            | Some v \<Rightarrow> tags n' = normalize_tags v) \<and>
         note_id n' = note_id n \<and> created_at n' = created_at n \<and>
         updated_at n' = (if submitted_equal n kvs then updated_at n else now) \<and>
         rows' = (if submitted_equal n kvs then rows
                  else map (\<lambda>r. if note_id r = note_id n then n' else r) rows))) \<and>
   (get_row rows i = Some n \<and> data = JObj kvs \<and> kvs \<noteq> [] \<and>
    (\<forall>v. map_of kvs ''title'' = Some v \<longrightarrow> (\<exists>s. v = JStr s)) \<and>
    (\<forall>v. map_of kvs ''content'' = Some v \<longrightarrow> (\<exists>s. v = JStr s)) \<longrightarrow>
      status (fst (update_note drv i data now rows)) = 200)"
proof (intro conjI impI)
  assume "get_row rows i = Some n \<and> update_note drv i data now rows = (resp, rows') \<and>
    status resp = 200"
  then show "\<exists>kvs n'. data = JObj kvs \<and> kvs \<noteq> [] \<and> resp = Response 200 (NoteObj n') \<and>
         (case map_of kvs ''title'' of None \<Rightarrow> title n' = title n
            | Some v \<Rightarrow> bind_text drv v = Inr (title n')) \<and>
         (case map_of kvs ''content'' of None \<Rightarrow> content n' = content n
            | Some v \<Rightarrow> bind_text drv v = Inr (content n')) \<and>
         (case map_of kvs ''tags'' of None \<Rightarrow> tags n' = tags n
            | Some v \<Rightarrow> tags n' = normalize_tags v) \<and>
         note_id n' = note_id n \<and> created_at n' = created_at n \<and>
         updated_at n' = (if submitted_equal n kvs then updated_at n else now) \<and>
         rows' = (if submitted_equal n kvs then rows
                  else map (\<lambda>r. if note_id r = note_id n then n' else r) rows)"
    using update_note_ok [of rows i n drv data now resp rows'] by blast
next
  assume "get_row rows i = Some n \<and> data = JObj kvs \<and> kvs \<noteq> [] \<and>
    (\<forall>v. map_of kvs ''title'' = Some v \<longrightarrow> (\<exists>s. v = JStr s)) \<and>
    (\<forall>v. map_of kvs ''content'' = Some v \<longrightarrow> (\<exists>s. v = JStr s))"
  then show "status (fst (update_note drv i data now rows)) = 200"
    using update_note_succeeds [of rows i n kvs drv now] by blast
qed

theorem update_note_fields_witness:
  "\<exists>n'. update_note (\<lambda>v. None) 1 (JObj [(''title'', JStr ''X'')]) 9
       [\<lparr>note_id = 1, title = ''T'', content = ''C'', tags = ''a'', created_at = 1, updated_at = 2\<rparr>]
     = (Response 200 (NoteObj n'), [n']) \<and>
     title n' = ''X'' \<and> content n' = ''C'' \<and> tags n' = ''a'' \<and> created_at n' = 1 \<and>
     updated_at n' = 9"
proof -
  let ?row = "\<lparr>note_id = 1, title = ''T'', content = ''C'', tags = ''a'',
               created_at = 1, updated_at = 2\<rparr>"
  let ?new = "\<lparr>note_id = 1, title = ''X'', content = ''C'', tags = ''a'',
               created_at = 1, updated_at = 9\<rparr>"
  let ?kvs = "[(''title'', JStr ''X'')]"
  have g: "get_row [?row] 1 = Some ?row" by (simp add: get_row_def)
  have u: "update_note (\<lambda>v. None) 1 (JObj ?kvs) 9 [?row] = (Response 200 (NoteObj ?new), [?new])"
    by (simp add: update_note_def get_row_def py_get_def flush_update_def bind_text_def Let_def)
  have ne: "\<not> submitted_equal ?row ?kvs" by (simp add: submitted_equal_def)
  have h: "get_row [?row] 1 = Some ?row \<and>
      update_note (\<lambda>v. None) 1 (JObj ?kvs) 9 [?row] = (Response 200 (NoteObj ?new), [?new]) \<and>
      status (Response 200 (NoteObj ?new)) = 200"
    using g u by simp
  from update_note_fields [where rows = "[?row]" and i = 1 and n = ?row and data = "JObj ?kvs"
        and drv = "\<lambda>v. None" and now = 9 and resp = "Response 200 (NoteObj ?new)"
        and rows' = "[?new]", THEN conjunct1, THEN mp, OF h]
  obtain kvs n' where k: "JObj ?kvs = JObj kvs" and r: "Response 200 (NoteObj ?new) = Response 200 (NoteObj n')"
    and c: "case map_of kvs ''content'' of None \<Rightarrow> content n' = content ?row
        | Some v \<Rightarrow> bind_text (\<lambda>v. None) v = Inr (content n')"
    and t: "updated_at n' = (if submitted_equal ?row kvs then updated_at ?row else 9)"
    by blast
  from k have k': "kvs = ?kvs" by simp
  from c t ne have "content n' = ''C''" "updated_at n' = 9" unfolding k' by simp_all
  moreover from r have "n' = ?new" by simp
  ultimately show ?thesis using u by simp
qed

section \<open>The order of the two timestamps\<close>

lemma stamped_mono: "stamped t rows \<Longrightarrow> t \<le> t' \<Longrightarrow> stamped t' rows"
  by (fastforce simp: stamped_def)

lemma create_note_rows:
  "snd (create_note drv data tc tu rows) = rows \<or>
   (\<exists>n. snd (create_note drv data tc tu rows) = rows @ [n] \<and> created_at n = tc \<and> updated_at n = tu)"
proof (cases "status (fst (create_note drv data tc tu rows)) = 201")
  case True
  then show ?thesis
    using create_note_created [of drv data tc tu rows "fst (create_note drv data tc tu rows)"
        "snd (create_note drv data tc tu rows)"]
    by auto
next
  case False
  then have "snd (create_note drv data tc tu rows) = rows"
    by (auto simp: create_note_def Let_def split: sum.splits bool.splits)
  then show ?thesis by simp
qed

lemma stamped_create:
  assumes "stamped t rows" "t \<le> tc" "tc \<le> tu"
  shows "stamped tu (snd (create_note drv data tc tu rows))"
proof -
  from assms have old: "stamped tu rows" by (auto intro: stamped_mono)
  from create_note_rows [of drv data tc tu rows] show ?thesis
  proof
    assume "snd (create_note drv data tc tu rows) = rows"
    with old show ?thesis by simp
  next
    assume "\<exists>n. snd (create_note drv data tc tu rows) = rows @ [n] \<and> created_at n = tc \<and> updated_at n = tu"
    with old assms(3) show ?thesis by (auto simp: stamped_def)
  qed
qed

lemma update_note_rows:
  "snd (update_note drv i data now rows) = rows \<or>
   (\<exists>n n'. n \<in> set rows \<and> created_at n' = created_at n \<and> updated_at n' = now \<and>
      snd (update_note drv i data now rows) = map (\<lambda>r. if note_id r = note_id n then n' else r) rows)"
proof (cases "get_row rows i")
  case None
  then show ?thesis by (simp add: update_note_def)
next
  case (Some n)
  show ?thesis
  proof (cases "status (fst (update_note drv i data now rows)) = 200")
    case True
    from update_note_ok [OF Some, of drv data now "fst (update_note drv i data now rows)"
        "snd (update_note drv i data now rows)"] True
    obtain kvs n' where "created_at n' = created_at n"
      "updated_at n' = (if submitted_equal n kvs then updated_at n else now)"
      "snd (update_note drv i data now rows) = (if submitted_equal n kvs then rows
              else map (\<lambda>r. if note_id r = note_id n then n' else r) rows)"
      by auto
    with get_row_in [OF Some] show ?thesis by (cases "submitted_equal n kvs") auto
  next
    case False
    have "snd (update_note drv i data now rows) = rows"
    proof (cases "\<exists>kvs. data = JObj kvs \<and> kvs \<noteq> []")
      case True
      then obtain kvs where d: "data = JObj kvs" "kvs \<noteq> []" by blast
      with False show ?thesis
        using update_note_obj [OF Some d(2), of drv now]
        by (auto split: prod.splits sum.splits)
    next
      case False
      with Some show ?thesis by (cases data) (simp_all add: update_note_def py_get_def)
    qed
    then show ?thesis by simp
  qed
qed

lemma stamped_update:
  assumes "stamped t rows" "t \<le> now"
  shows "stamped now (snd (update_note drv i data now rows))"
proof -
  from assms have old: "stamped now rows" by (auto intro: stamped_mono)
  from update_note_rows [of drv i data now rows] show ?thesis
  proof
    assume "snd (update_note drv i data now rows) = rows"
    with old show ?thesis by simp
  next
    assume "\<exists>n n'. n \<in> set rows \<and> created_at n' = created_at n \<and> updated_at n' = now \<and>
      snd (update_note drv i data now rows) = map (\<lambda>r. if note_id r = note_id n then n' else r) rows"
    then obtain n n' where n: "n \<in> set rows" "created_at n' = created_at n" "updated_at n' = now"
      and r: "snd (update_note drv i data now rows) = map (\<lambda>r. if note_id r = note_id n then n' else r) rows"
      by blast
    from n old have "created_at n' \<le> updated_at n' \<and> updated_at n' \<le> now"
      by (fastforce simp: stamped_def)
    with old show ?thesis unfolding r by (auto simp: stamped_def)
  qed
qed

lemma stamped_delete: "stamped t rows \<Longrightarrow> stamped t (snd (delete_note i rows))"
  by (auto simp: stamped_def delete_note_def split: option.splits)

lemma stamped_run:
  "stamped t rows \<Longrightarrow> sorted (t # concat (map readings ops)) \<Longrightarrow>
   \<exists>t'. stamped t' (fold (apply_operation drv) ops rows)"
proof (induction ops arbitrary: t rows)
  case Nil
  then show ?case by auto
next
  case (Cons op ops)
  show ?case
  proof (cases op)
    case (Create data tc tu)
    with Cons.prems have "t \<le> tc" "tc \<le> tu" "sorted (tu # concat (map readings ops))"
      by auto
    with Cons.prems(1) Cons.IH [of tu "snd (create_note drv data tc tu rows)"] Create
    show ?thesis by (simp add: stamped_create)
  next
    case (Update i data now)
    with Cons.prems have "t \<le> now" "sorted (now # concat (map readings ops))" by auto
    with Cons.prems(1) Cons.IH [of now "snd (update_note drv i data now rows)"] Update
    show ?thesis by (simp add: stamped_update)
  next
    case (Delete i)
    with Cons.prems have "sorted (t # concat (map readings ops))" by auto
    with Cons.prems(1) Cons.IH [of t "snd (delete_note i rows)"] Delete
    show ?thesis by (simp add: stamped_delete)
  qed
qed

text \<open>
  C6 as stated fails at creation: the two timestamps of a new note are two readings of the
  clock, here 100 and 101, and the note is stored with \<open>updated_at\<close> different from
  \<open>created_at\<close>.
\<close>

theorem create_note_two_readings_counterexample:
  "create_note (\<lambda>v. None) (JObj [(''title'', JStr ''T''), (''content'', JStr ''C'')]) 100 101 [] =
     (Response 201 (NoteObj \<lparr>note_id = 1, title = ''T'', content = ''C'', tags = '''',
                             created_at = 100, updated_at = 101\<rparr>),
      [\<lparr>note_id = 1, title = ''T'', content = ''C'', tags = '''',
         created_at = 100, updated_at = 101\<rparr>])"
  by (simp add: create_note_def missing_fields_def py_in_def py_get_def py_item_def
      insert_note_def bind_text_def normalize_tags_def py_str_def new_id_def)

text \<open>
  C6, as the code has it. When the clock readings taken by a run of create, update and
  delete requests never decrease, every note of the table has \<open>created_at\<close> at most
  \<open>updated_at\<close> after the run, whatever the requests were; and a note that create stores
  has the first reading of the request as \<open>created_at\<close> and the second as \<open>updated_at\<close>.
\<close>

theorem timestamps_ordered:
  "(sorted (concat (map readings ops)) \<longrightarrow>
      (\<forall>n\<in>set (fold (apply_operation drv) ops []). created_at n \<le> updated_at n)) \<and>
   (create_note drv data tc tu rows = (Response 201 (NoteObj n), rows') \<longrightarrow>
      created_at n = tc \<and> updated_at n = tu)"
proof (rule conjI; rule impI)
  assume s: "sorted (concat (map readings ops))"
  define t where "t = (case concat (map readings ops) of [] \<Rightarrow> 0 | x # xs \<Rightarrow> x)"
  have "sorted xs \<Longrightarrow> sorted ((case xs of [] \<Rightarrow> 0 | x # ys \<Rightarrow> x) # xs)" for xs :: "int list"
    by (cases xs) auto
  from this [OF s] have "sorted (t # concat (map readings ops))"
    unfolding t_def .
  moreover have "stamped t []" by (simp add: stamped_def)
  ultimately obtain t' where "stamped t' (fold (apply_operation drv) ops [])"
    using stamped_run by blast
  then show "\<forall>n\<in>set (fold (apply_operation drv) ops []). created_at n \<le> updated_at n"
    by (simp add: stamped_def)
next
  assume "create_note drv data tc tu rows = (Response 201 (NoteObj n), rows')"
  then show "created_at n = tc \<and> updated_at n = tu"
    using create_note_created [of drv data tc tu rows "Response 201 (NoteObj n)" rows'] by auto
qed

theorem timestamps_ordered_witness:
  "fold (apply_operation (\<lambda>v. None))
     [Create (JObj [(''title'', JStr ''T''), (''content'', JStr ''C'')]) 100 101,
      Update 1 (JObj [(''title'', JStr ''X'')]) 105] []
   = [\<lparr>note_id = 1, title = ''X'', content = ''C'', tags = '''',
        created_at = 100, updated_at = 105\<rparr>] \<and>
   list_all (\<lambda>n. created_at n \<le> updated_at n)
     (fold (apply_operation (\<lambda>v. None))
       [Create (JObj [(''title'', JStr ''T''), (''content'', JStr ''C'')]) 100 101,
        Update 1 (JObj [(''title'', JStr ''X'')]) 105] [])"
proof -
  let ?ops = "[Create (JObj [(''title'', JStr ''T''), (''content'', JStr ''C'')]) 100 101,
      Update 1 (JObj [(''title'', JStr ''X'')]) 105]"
  have s: "sorted (concat (map readings ?ops))" by simp
  have c: "create_note (\<lambda>v. None) (JObj [(''title'', JStr ''T''), (''content'', JStr ''C'')]) 100 101 []
     = (Response 201 (NoteObj \<lparr>note_id = 1, title = ''T'', content = ''C'', tags = '''',
                             created_at = 100, updated_at = 101\<rparr>),
      [\<lparr>note_id = 1, title = ''T'', content = ''C'', tags = '''',
         created_at = 100, updated_at = 101\<rparr>])"
    by (simp add: create_note_def missing_fields_def py_in_def py_get_def py_item_def
      insert_note_def bind_text_def normalize_tags_def py_str_def new_id_def)
  have u: "update_note (\<lambda>v. None) 1 (JObj [(''title'', JStr ''X'')]) 105
      [\<lparr>note_id = 1, title = ''T'', content = ''C'', tags = '''',
         created_at = 100, updated_at = 101\<rparr>]
     = (Response 200 (NoteObj \<lparr>note_id = 1, title = ''X'', content = ''C'', tags = '''',
                             created_at = 100, updated_at = 105\<rparr>),
        [\<lparr>note_id = 1, title = ''X'', content = ''C'', tags = '''',
         created_at = 100, updated_at = 105\<rparr>])"
    by (simp add: update_note_def get_row_def py_get_def flush_update_def bind_text_def Let_def)
  have f: "fold (apply_operation (\<lambda>v. None)) ?ops []
     = [\<lparr>note_id = 1, title = ''X'', content = ''C'', tags = '''',
        created_at = 100, updated_at = 105\<rparr>]"
    using c u by simp
  from timestamps_ordered [where ops = ?ops and drv = "\<lambda>v. None", THEN conjunct1, THEN mp, OF s] f
  show ?thesis by (simp add: list_all_iff)
qed

section \<open>Login\<close>

lemma login_obj:
  assumes "map_of kvs ''username'' = Some name" "truthy name"
    and "map_of kvs ''password'' = Some pw" "truthy pw"
  shows "login sec (Some m) rows (JObj kvs) =
     (case find_user m rows name of
        None \<Rightarrow> (AuthResponse 401 (Err ''Invalid credentials''), [])
      | Some u \<Rightarrow>
          (case verify sec u pw of
             None \<Rightarrow> (AuthResponse 500 (Err ''No password verifier available for User model''), [])
           | Some (verdict, calls) \<Rightarrow> (answer_for u verdict, calls)))"
proof -
  from assms(1) have "kvs \<noteq> []" by auto
  then have t: "truthy (JObj kvs)" by simp
  show ?thesis
    using assms t
    by (simp add: login_def py_get_def answer_for_def
        split: option.splits prod.splits bool.splits)
qed

lemma verify_selected:
  "verify sec u pw = (case check_password u of
       Some f \<Rightarrow> Some (f pw, [CheckPasswordMethod pw])
     | None \<Rightarrow> (case password_hash u of
         Some h \<Rightarrow> Some (check_password_hash sec h pw, [CheckPasswordHash h pw])
       | None \<Rightarrow> (case password u of
           Some p \<Rightarrow> Some (Some (JStr p = pw), [PlainEquality p pw])
         | None \<Rightarrow> None)))"
  by (simp add: verify_def attempt_def perform_def split: option.splits)

lemma login_found:
  assumes "map_of kvs ''username'' = Some name" "truthy name"
    and "map_of kvs ''password'' = Some pw" "truthy pw"
    and "find_user m rows name = Some u"
  shows "login sec (Some m) rows (JObj kvs) =
       (case check_password u of
          Some f \<Rightarrow> (answer_for u (f pw), [CheckPasswordMethod pw])
        | None \<Rightarrow> (case password_hash u of
            Some h \<Rightarrow> (answer_for u (check_password_hash sec h pw), [CheckPasswordHash h pw])
          | None \<Rightarrow> (case password u of
              Some p \<Rightarrow> (answer_for u (Some (JStr p = pw)), [PlainEquality p pw])
            | None \<Rightarrow>
                (AuthResponse 500 (Err ''No password verifier available for User model''), []))))"
  unfolding login_obj [OF assms(1-4)] verify_selected
  using assms(5) by (simp split: option.splits)



text \<open>
  C7. When a login request with a username and a password finds a user, exactly one
  verifier is called, and its verdict alone decides the answer: the entity's
  \<open>check_password\<close> with the raw password if it has one, else the hash check of the raw
  password against \<open>password_hash\<close> if it has that, else the comparison of the raw password
  with \<open>password\<close> if it has that. Never more than one call is made, the answer is the one
  for the verdict of the call made, and an entity with none of the three gets status 500
  with the configuration error and no call.
\<close>

theorem login_single_verifier:
  "map_of kvs ''username'' = Some name \<and> truthy name \<and>
   map_of kvs ''password'' = Some pw \<and> truthy pw \<and> find_user m rows name = Some u \<longrightarrow>
     login sec (Some m) rows (JObj kvs) =
       (case check_password u of
          Some f \<Rightarrow> (answer_for u (f pw), [CheckPasswordMethod pw])
        | None \<Rightarrow> (case password_hash u of
            Some h \<Rightarrow> (answer_for u (check_password_hash sec h pw), [CheckPasswordHash h pw])
          | None \<Rightarrow> (case password u of
              Some p \<Rightarrow> (answer_for u (Some (JStr p = pw)), [PlainEquality p pw])
            | None \<Rightarrow>
                (AuthResponse 500 (Err ''No password verifier available for User model''),
                 [])))) \<and>
     length (snd (login sec (Some m) rows (JObj kvs))) \<le> 1 \<and>
     list_all (\<lambda>c. fst (login sec (Some m) rows (JObj kvs)) = answer_for u (perform sec u c))
       (snd (login sec (Some m) rows (JObj kvs)))"
proof
  assume a: "map_of kvs ''username'' = Some name \<and> truthy name \<and>
   map_of kvs ''password'' = Some pw \<and> truthy pw \<and> find_user m rows name = Some u"
  then have l: "login sec (Some m) rows (JObj kvs) =
       (case check_password u of
          Some f \<Rightarrow> (answer_for u (f pw), [CheckPasswordMethod pw])
        | None \<Rightarrow> (case password_hash u of
            Some h \<Rightarrow> (answer_for u (check_password_hash sec h pw), [CheckPasswordHash h pw])
          | None \<Rightarrow> (case password u of
              Some p \<Rightarrow> (answer_for u (Some (JStr p = pw)), [PlainEquality p pw])
            | None \<Rightarrow>
                (AuthResponse 500 (Err ''No password verifier available for User model''),
                 []))))"
    using login_found [of kvs name pw m rows u sec] by blast
  have n: "length (snd (login sec (Some m) rows (JObj kvs))) \<le> 1"
    unfolding l by (simp split: option.splits)
  have p: "list_all (\<lambda>c. fst (login sec (Some m) rows (JObj kvs)) = answer_for u (perform sec u c))
       (snd (login sec (Some m) rows (JObj kvs)))"
    unfolding l by (simp add: perform_def split: option.splits)
  from l n p show "login sec (Some m) rows (JObj kvs) =
       (case check_password u of
          Some f \<Rightarrow> (answer_for u (f pw), [CheckPasswordMethod pw])
        | None \<Rightarrow> (case password_hash u of
            Some h \<Rightarrow> (answer_for u (check_password_hash sec h pw), [CheckPasswordHash h pw])
          | None \<Rightarrow> (case password u of
              Some p \<Rightarrow> (answer_for u (Some (JStr p = pw)), [PlainEquality p pw])
            | None \<Rightarrow>
                (AuthResponse 500 (Err ''No password verifier available for User model''),
                 [])))) \<and>
     length (snd (login sec (Some m) rows (JObj kvs))) \<le> 1 \<and>
     list_all (\<lambda>c. fst (login sec (Some m) rows (JObj kvs)) = answer_for u (perform sec u c))
       (snd (login sec (Some m) rows (JObj kvs)))"
    by blast
qed

theorem login_single_verifier_witness:
  "login \<lparr>check_password_hash = (\<lambda>h p. Some (p = JStr h)), generate_password_hash = (\<lambda>p. p)\<rparr>
         (Some \<lparr>has_username = True, has_email = True, construct = (\<lambda>n e. None),
                 set_password = None, commit_user = (\<lambda>rows u. None),
                 query_other = (\<lambda>f v rows. None)\<rparr>)
         [\<lparr>user_id = 1, username = ''alice'', email = Some ''a@x'', check_password = None,
            password_hash = Some ''h1'', password = Some ''plain''\<rparr>]
         (JObj [(''username'', JStr ''alice''), (''password'', JStr ''h1'')])
   = (AuthResponse 200 (Done ''Login successful''
        \<lparr>sum_id = 1, sum_username = ''alice'', sum_email = Some ''a@x''\<rparr>),
      [CheckPasswordHash ''h1'' (JStr ''h1'')])"
proof -
  let ?sec = "\<lparr>check_password_hash = (\<lambda>h p. Some (p = JStr h)), generate_password_hash = (\<lambda>p. p)\<rparr>"
  let ?m = "\<lparr>has_username = True, has_email = True, construct = (\<lambda>n e. None),
                 set_password = None, commit_user = (\<lambda>rows u. None),
                 query_other = (\<lambda>f v rows. None)\<rparr>"
  let ?u = "\<lparr>user_id = 1, username = ''alice'', email = Some ''a@x'', check_password = None,
            password_hash = Some ''h1'', password = Some ''plain''\<rparr>"
  let ?kvs = "[(''username'', JStr ''alice''), (''password'', JStr ''h1'')]"
  have h: "map_of ?kvs ''username'' = Some (JStr ''alice'') \<and> truthy (JStr ''alice'') \<and>
      map_of ?kvs ''password'' = Some (JStr ''h1'') \<and> truthy (JStr ''h1'') \<and>
      find_user ?m [?u] (JStr ''alice'') = Some ?u"
    by (simp add: find_user_def query_first_def)
  from login_single_verifier [where kvs = ?kvs and name = "JStr ''alice''" and pw = "JStr ''h1''"
      and m = ?m and rows = "[?u]" and u = ?u and sec = ?sec, THEN mp, OF h, THEN conjunct1]
  show ?thesis by (simp add: answer_for_def summary_def)
qed




section \<open>Registration\<close>




section \<open>Pattern matching, search and the tag filter\<close>

lemma like_percent: "like (CHR ''%'' # ps) s \<longleftrightarrow> (\<exists>a b. s = a @ b \<and> like ps b)"
proof (induction s)
  case Nil
  then show ?case by simp
next
  case (Cons c cs)
  have "(\<exists>a b. c # cs = a @ b \<and> like ps b) \<longleftrightarrow> like ps (c # cs) \<or> (\<exists>a b. cs = a @ b \<and> like ps b)"
    by (auto simp: Cons_eq_append_conv)
  with Cons show ?case by simp
qed

lemma like_literal:
  "CHR ''%'' \<notin> set t \<Longrightarrow> CHR ''_'' \<notin> set t \<Longrightarrow>
   like (t @ ps) s \<longleftrightarrow> (\<exists>r. s = t @ r \<and> like ps r)"
proof (induction t arbitrary: s)
  case Nil
  then show ?case by simp
next
  case (Cons c t)
  then show ?case by (cases s) auto
qed

lemma like_any: "like ''%'' s"
  by (simp add: like_percent)

lemma like_contains:
  assumes "CHR ''%'' \<notin> set t" "CHR ''_'' \<notin> set t"
  shows "like (''%'' @ t @ ''%'') s \<longleftrightarrow> sublist t s"
proof -
  have "like (''%'' @ t @ ''%'') s \<longleftrightarrow> (\<exists>a b. s = a @ b \<and> like (t @ ''%'') b)"
    using like_percent [of "t @ ''%''" s] by simp
  also have "\<dots> \<longleftrightarrow> (\<exists>a b. s = a @ b \<and> (\<exists>r. b = t @ r))"
    using like_literal [OF assms, of "''%''"] like_any by simp
  also have "\<dots> \<longleftrightarrow> sublist t s"
    by (auto simp: sublist_def)
  finally show ?thesis .
qed

lemma sql_fold_wildcard:
  "sql_fold c = CHR ''%'' \<longleftrightarrow> c = CHR ''%''" "sql_fold c = CHR ''_'' \<longleftrightarrow> c = CHR ''_''"
proof -
  have up: "65 \<le> (of_char c :: nat) \<Longrightarrow> of_char c \<le> (90 :: nat) \<Longrightarrow>
      (of_char (char_of (of_char c + 32 :: nat)) :: nat) = of_char c + 32"
    by (simp add: of_char_of)
  show "sql_fold c = CHR ''%'' \<longleftrightarrow> c = CHR ''%''"
  proof (cases "65 \<le> (of_char c :: nat) \<and> of_char c \<le> (90 :: nat)")
    case True
    then have "(of_char (sql_fold c) :: nat) = of_char c + 32" by (simp add: sql_fold_def up)
    with True have "(of_char (sql_fold c) :: nat) \<noteq> of_char (CHR ''%'')" "(of_char c :: nat) \<noteq> of_char (CHR ''%'')"
      by simp_all
    then show ?thesis by auto
  next
    case False
    then show ?thesis by (auto simp: sql_fold_def Let_def)
  qed
  show "sql_fold c = CHR ''_'' \<longleftrightarrow> c = CHR ''_''"
  proof (cases "65 \<le> (of_char c :: nat) \<and> of_char c \<le> (90 :: nat)")
    case True
    then have "(of_char (sql_fold c) :: nat) = of_char c + 32" by (simp add: sql_fold_def up)
    with True have "(of_char (sql_fold c) :: nat) \<noteq> of_char (CHR ''_'')" "(of_char c :: nat) \<noteq> of_char (CHR ''_'')"
      by simp_all
    then show ?thesis by auto
  next
    case False
    then show ?thesis by (auto simp: sql_fold_def Let_def)
  qed
qed

text \<open>
  For a text without \<open>%\<close> and \<open>_\<close> the pattern built from it matches exactly the values
  that contain it, letters A to Z in either case; for any text it matches at least those.
\<close>

lemma ilike_contains:
  assumes "CHR ''%'' \<notin> set t" "CHR ''_'' \<notin> set t"
  shows "ilike (contains_pattern t) s \<longleftrightarrow> sublist (map sql_fold t) (map sql_fold s)"
proof -
  from assms have "\<forall>c\<in>set t. sql_fold c \<noteq> CHR ''%'' \<and> sql_fold c \<noteq> CHR ''_''"
    by (metis sql_fold_wildcard)
  then have "CHR ''%'' \<notin> set (map sql_fold t)" "CHR ''_'' \<notin> set (map sql_fold t)"
    by force+
  from like_contains [OF this, of "map sql_fold s"] show ?thesis
    by (simp add: ilike_def contains_pattern_def sql_fold_wildcard [of "CHR ''%''", simplified] sql_fold_def)
qed

lemma like_percent_skip: "like ps s \<Longrightarrow> like (CHR ''%'' # ps) s"
  unfolding like_percent by (rule exI [of _ "[]"]) simp

lemma like_prepend: "like ps r \<Longrightarrow> like (t @ ps) (t @ r)"
proof (induction t)
  case Nil
  then show ?case by simp
next
  case (Cons c t)
  then show ?case by (simp add: like_percent_skip)
qed

lemma ilike_contains_if:
  assumes "sublist (map sql_fold t) (map sql_fold s)"
  shows "ilike (contains_pattern t) s"
proof -
  from assms obtain a r where s: "map sql_fold s = a @ map sql_fold t @ r"
    by (auto simp: sublist_def)
  have "like (map sql_fold t @ ''%'') (map sql_fold t @ r)"
    by (rule like_prepend) (rule like_any)
  then have "like (CHR ''%'' # map sql_fold t @ ''%'') (a @ map sql_fold t @ r)"
    unfolding like_percent by blast
  moreover have "sql_fold (CHR ''%'') = CHR ''%''" by (simp add: sql_fold_wildcard)
  ultimately show ?thesis by (simp add: ilike_def contains_pattern_def s)
qed

lemma order_by_updated_desc_sorted:
  "sorted_wrt (\<lambda>a b. updated_at b \<le> updated_at a) (order_by_updated_desc rows)"
proof -
  have "sorted (map (\<lambda>n. - updated_at n) (order_by_updated_desc rows))"
    by (simp add: order_by_updated_desc_def)
  then show ?thesis by (simp add: sorted_map)
qed

lemma order_by_updated_desc_set: "set (order_by_updated_desc rows) = set rows"
  by (simp add: order_by_updated_desc_def)

lemma order_by_updated_desc_length: "length (order_by_updated_desc rows) = length rows"
  by (simp add: order_by_updated_desc_def)

lemma match_any_tag_literal:
  assumes "\<forall>t\<in>set ts. CHR ''%'' \<notin> set t \<and> CHR ''_'' \<notin> set t"
  shows "match_any_tag ts rows = order_by_updated_desc
     (filter (\<lambda>n. \<exists>t\<in>set ts. sublist (map sql_fold t) (map sql_fold (tags n))) rows)"
proof -
  have "list_ex (\<lambda>t. ilike (contains_pattern t) s) ts
        \<longleftrightarrow> (\<exists>t\<in>set ts. sublist (map sql_fold t) (map sql_fold s))" for s
    using assms by (auto simp: list_ex_iff ilike_contains)
  then show ?thesis by (simp add: match_any_tag_def)
qed

lemma match_any_tag_superset:
  assumes "n \<in> set rows" "t \<in> set ts" "sublist (map sql_fold t) (map sql_fold (tags n))"
  shows "n \<in> set (match_any_tag ts rows)"
proof -
  from assms(3) have "ilike (contains_pattern t) (tags n)" by (rule ilike_contains_if)
  with assms(2) have "list_ex (\<lambda>t. ilike (contains_pattern t) (tags n)) ts"
    by (auto simp: list_ex_iff)
  with assms(1) show ?thesis
    by (simp add: match_any_tag_def order_by_updated_desc_set)
qed

lemma search_notes_blank:
  "strip (case q of None \<Rightarrow> [] | Some s \<Rightarrow> s) = [] \<Longrightarrow> search_notes q rows = Response 200 (NoteList [])"
  by (simp add: search_notes_def)

lemma search_notes_literal:
  assumes "strip (case q of None \<Rightarrow> [] | Some s \<Rightarrow> s) = query" "query \<noteq> []"
    and "CHR ''%'' \<notin> set query" "CHR ''_'' \<notin> set query"
  shows "search_notes q rows = Response 200 (NoteList (order_by_updated_desc
     (filter (\<lambda>n. sublist (map sql_fold query) (map sql_fold (title n)) \<or>
                  sublist (map sql_fold query) (map sql_fold (content n))) rows)))"
  using assms by (simp add: search_notes_def Let_def ilike_contains)

text \<open>
  C1, at an input where the code leaves the documented substring match. The requested tag
  \<open>a_t\<close> is not a substring of the stored tag string \<open>art\<close> in any casing, and the tag
  filter returns the note all the same: the underscore of the request reaches the pattern
  unescaped and stands for any one character.
\<close>

theorem filter_tags_wildcard_match:
  "filter_notes_by_tags [''a_t''] None
     [\<lparr>note_id = 1, title = ''T'', content = ''C'', tags = ''art'', created_at = 1, updated_at = 1\<rparr>]
   = Response 200 (NoteList
     [\<lparr>note_id = 1, title = ''T'', content = ''C'', tags = ''art'', created_at = 1, updated_at = 1\<rparr>])
   \<and> \<not> sublist (map sql_fold ''a_t'') (map sql_fold ''art'')"
  by code_simp

text \<open>
  C4, at an input where the code leaves the documented substring search. The query
  \<open>a_c\<close> is a substring neither of the title \<open>abc\<close> nor of the content, and the search
  returns the note all the same, by the same unescaped underscore as in the tag filter.
\<close>

theorem search_wildcard_match:
  "search_notes (Some ''a_c'')
     [\<lparr>note_id = 1, title = ''abc'', content = ''C'', tags = '''', created_at = 1, updated_at = 1\<rparr>]
   = Response 200 (NoteList
     [\<lparr>note_id = 1, title = ''abc'', content = ''C'', tags = '''', created_at = 1, updated_at = 1\<rparr>])
   \<and> \<not> sublist (map sql_fold ''a_c'') (map sql_fold ''abc'')
   \<and> \<not> sublist (map sql_fold ''a_c'') (map sql_fold ''C'')"
  by code_simp

end
